theory Spec2Isabelle
  imports Main
begin

section \<open>Exceptions and character classes\<close>

text \<open>
  The exceptions the standard library raises in this code: \<open>std::stoul\<close> and
  \<open>std::stoull\<close> throw \<open>std::invalid_argument\<close> when no conversion can be performed
  and \<open>std::out_of_range\<close> when the value does not fit the result type;
  \<open>std::string::resize\<close> throws \<open>std::length_error\<close> when asked for more than a
  string can hold. Nothing in the server catches them.
\<close>

datatype error = InvalidArgument | OutOfRange | LengthError

definition CR :: char where "CR = CHR 0x0D"
definition LF :: char where "LF = CHR 0x0A"
definition CRLF :: string where "CRLF = [CR, LF]"

text \<open>\<open>std::tolower\<close> on an \<open>unsigned char\<close> in the "C" locale.\<close>

definition tolower :: "char \<Rightarrow> char" where
  "tolower c = (let n = (of_char c :: nat) in if 65 \<le> n \<and> n \<le> 90 then char_of (n + 32) else c)"

text \<open>\<open>std::isspace\<close> in the "C" locale: space, and \<open>\t \n \v \f \r\<close> (codes 9 to 13).\<close>

definition isspace :: "char \<Rightarrow> bool" where
  "isspace c = (let n = (of_char c :: nat) in n = 32 \<or> (9 \<le> n \<and> n \<le> 13))"

text \<open>The value of a character as a digit in base 16 (and so in base 10), if it has one.\<close>

definition digit_val :: "char \<Rightarrow> nat option" where
  "digit_val c = (let n = (of_char c :: nat) in
     if 48 \<le> n \<and> n \<le> 57 then Some (n - 48)
     else if 97 \<le> n \<and> n \<le> 102 then Some (n - 87)
     else if 65 \<le> n \<and> n \<le> 70 then Some (n - 55)
     else None)"

definition is_digit_in :: "nat \<Rightarrow> char \<Rightarrow> bool" where
  "is_digit_in base c = (case digit_val c of None \<Rightarrow> False | Some d \<Rightarrow> d < base)"

section \<open>The operations of \<open>std::string\<close> the code uses\<close>

text \<open>
  Positions are \<open>size_t\<close>; the result \<open>std::string::npos\<close> of an unsuccessful search is
  \<open>None\<close>.
\<close>

fun find_aux :: "string \<Rightarrow> string \<Rightarrow> nat \<Rightarrow> nat option" where
  "find_aux t [] i = (if t = [] then Some i else None)"
| "find_aux t (c # s) i = (if take (length t) (c # s) = t then Some i else find_aux t s (Suc i))"

text \<open>\<open>s.find(t, pos)\<close>: the lowest position \<open>\<ge> pos\<close> at which \<open>t\<close> occurs in \<open>s\<close>.\<close>

definition find_str :: "string \<Rightarrow> string \<Rightarrow> nat \<Rightarrow> nat option" where
  "find_str s t pos = (if length s < pos then None else find_aux t (drop pos s) pos)"

text \<open>\<open>s.find(c, pos)\<close> for a single character.\<close>

definition find_char :: "string \<Rightarrow> char \<Rightarrow> nat \<Rightarrow> nat option" where
  "find_char s c pos = find_str s [c] pos"

text \<open>\<open>s.find_last_of(c)\<close>: the highest position of \<open>c\<close> in \<open>s\<close>.\<close>

fun find_last_aux :: "char \<Rightarrow> string \<Rightarrow> nat \<Rightarrow> nat option \<Rightarrow> nat option" where
  "find_last_aux c [] i found = found"
| "find_last_aux c (x # s) i found = find_last_aux c s (Suc i) (if x = c then Some i else found)"

definition find_last_of :: "string \<Rightarrow> char \<Rightarrow> nat option" where
  "find_last_of s c = find_last_aux c s 0 None"

text \<open>
  \<open>s.substr(pos, n)\<close> and \<open>s.substr(pos)\<close>. The library throws when \<open>pos > s.size()\<close>;
  every call in this code passes a position that a search in the same string has just
  returned (plus at most the length of what was searched for), so that case does not
  arise and is not given a branch.
\<close>

definition substr :: "string \<Rightarrow> nat \<Rightarrow> nat \<Rightarrow> string" where
  "substr s pos n = take n (drop pos s)"

definition substr_from :: "string \<Rightarrow> nat \<Rightarrow> string" where
  "substr_from s pos = drop pos s"

text \<open>
  \<open>while (std::getline(ss, segment, d))\<close>: the segments the loop body sees. A read
  that extracts a delimiter succeeds even when the segment is empty; a read that meets
  the end of the stream succeeds only if it extracted at least one character.
\<close>

fun getline_aux :: "char \<Rightarrow> string \<Rightarrow> string \<Rightarrow> string list" where
  "getline_aux d seg [] = (if seg = [] then [] else [seg])"
| "getline_aux d seg (c # s) = (if c = d then seg # getline_aux d [] s else getline_aux d (seg @ [c]) s)"

definition getline_split :: "char \<Rightarrow> string \<Rightarrow> string list" where
  "getline_split d s = getline_aux d [] s"

text \<open>
  \<open>std::search(first, last, t.begin(), t.end(), pred)\<close> on the range given as a list:
  the position of the first occurrence of \<open>t\<close> under \<open>pred\<close>, or the position of
  \<open>last\<close> when there is none.
\<close>

fun search_aux :: "('a \<Rightarrow> 'a \<Rightarrow> bool) \<Rightarrow> 'a list \<Rightarrow> 'a list \<Rightarrow> nat \<Rightarrow> nat" where
  "search_aux p t [] i = i"
| "search_aux p t (c # s) i =
     (if list_all2 p (take (length t) (c # s)) t then i else search_aux p t s (Suc i))"

definition search :: "('a \<Rightarrow> 'a \<Rightarrow> bool) \<Rightarrow> 'a list \<Rightarrow> 'a list \<Rightarrow> nat" where
  "search p hay t = search_aux p t hay 0"

section \<open>\<open>std::stoul\<close> and \<open>std::stoull\<close>\<close>

text \<open>
  Both call \<open>strtoul\<close>/\<open>strtoull\<close> (64 bits on the LP64 targets of this POSIX server):
  white space is skipped, one sign is accepted, in base 16 a \<open>0x\<close> prefix is skipped
  when a hexadecimal digit follows it, and the longest run of digits is converted. No
  digit at all is \<open>std::invalid_argument\<close>; a value above \<open>2^64 - 1\<close> is
  \<open>std::out_of_range\<close>; a minus sign negates the value in the unsigned type.
\<close>

definition digits_value :: "nat \<Rightarrow> string \<Rightarrow> nat" where
  "digits_value base ds =
     foldl (\<lambda>acc c. case digit_val c of None \<Rightarrow> acc | Some d \<Rightarrow> acc * base + d) 0 ds"

definition has_hex_prefix :: "string \<Rightarrow> bool" where
  "has_hex_prefix s = (case s of
       z # x # h # _ \<Rightarrow> z = CHR ''0'' \<and> (x = CHR ''x'' \<or> x = CHR ''X'') \<and> is_digit_in 16 h
     | _ \<Rightarrow> False)"

definition sto_unsigned :: "nat \<Rightarrow> string \<Rightarrow> error + nat" where
  "sto_unsigned base s =
     (let s1 = dropWhile isspace s;
          neg = (case s1 of [] \<Rightarrow> False | c # _ \<Rightarrow> c = CHR ''-'');
          s2 = (case s1 of [] \<Rightarrow> [] | c # r \<Rightarrow> if c = CHR ''-'' \<or> c = CHR ''+'' then r else s1);
          s3 = (if base = 16 \<and> has_hex_prefix s2 then drop 2 s2 else s2);
          ds = takeWhile (is_digit_in base) s3
      in if ds = [] then Inl InvalidArgument
         else let v = digits_value base ds
              in if v > 2 ^ 64 - 1 then Inl OutOfRange
                 else Inr (if neg then (2 ^ 64 - v) mod 2 ^ 64 else v))"

text \<open>\<open>std::stoull(s)\<close>.\<close>

definition stoull :: "string \<Rightarrow> error + nat" where
  "stoull s = sto_unsigned 10 s"

text \<open>\<open>std::stoul(s, nullptr, 16)\<close>.\<close>

definition stoul16 :: "string \<Rightarrow> error + nat" where
  "stoul16 s = sto_unsigned 16 s"

section \<open>Common.hpp: the request and the response\<close>

text \<open>
  \<open>struct RequestInfo\<close> and \<open>struct Response\<close>. Both structs have fields \<open>body\<close> and
  \<open>keep_alive\<close>; those of the request are \<open>req_body\<close> and \<open>req_keep_alive\<close> here,
  and its field \<open>method\<close> is \<open>req_method\<close>.
  \<open>Response::headers\<close> is a \<open>std::map\<close> that the code only iterates over: it is the list
  of its entries in iteration order.
\<close>

record RequestInfo =
  path :: string
  query :: string
  params :: "string \<rightharpoonup> string"
  req_method :: string
  req_body :: string
  req_keep_alive :: bool

record Response =
  status_code :: int
  status_text :: string
  content_type :: string
  body :: string
  headers :: "(string \<times> string) list"
  keep_alive :: bool

definition MAX_PAYLOAD_SIZE :: nat where
  "MAX_PAYLOAD_SIZE = 10485760"

text \<open>The default member initializers: what \<open>RequestInfo info;\<close> and \<open>Response res;\<close> hold.\<close>

definition new_RequestInfo :: RequestInfo where
  "new_RequestInfo = \<lparr>path = [], query = [], params = Map.empty, req_method = [],
     req_body = [], req_keep_alive = True\<rparr>"

definition new_Response :: Response where
  "new_Response = \<lparr>status_code = 200, status_text = ''OK'', content_type = ''text/html'',
     body = [], headers = [], keep_alive = True\<rparr>"

section \<open>Common.cpp: \<open>Response::to_string\<close>\<close>

text \<open>How \<open>operator<<\<close> prints a \<open>size_t\<close> and an \<open>int\<close>: decimal, no padding.\<close>

fun show_nat :: "nat \<Rightarrow> string" where
  "show_nat n = (if n < 10 then [char_of (48 + n)] else show_nat (n div 10) @ [char_of (48 + n mod 10)])"

declare show_nat.simps [simp del]

definition show_int :: "int \<Rightarrow> string" where
  "show_int i = (if i < 0 then CHR ''-'' # show_nat (nat (- i)) else show_nat (nat i))"

definition header_line :: "string \<times> string \<Rightarrow> string" where
  "header_line kv = fst kv @ '': '' @ snd kv @ CRLF"

definition to_string :: "Response \<Rightarrow> string" where
  "to_string r =
     (let oss = ''HTTP/1.1 '' @ show_int (status_code r) @ '' '' @ status_text r @ CRLF;
          oss = oss @ ''Content-Type: '' @ content_type r @ CRLF;
          oss = oss @ ''Content-Length: '' @ show_nat (length (body r)) @ CRLF;
          oss = oss @ ''Connection: '' @ (if keep_alive r then ''keep-alive'' else ''close'') @ CRLF;
          oss = foldl (\<lambda>oss kv. oss @ fst kv @ '': '' @ snd kv @ CRLF) oss (headers r)
      in oss @ CRLF @ body r)"

section \<open>Parsers.cpp\<close>

definition ci_char_compare :: "char \<Rightarrow> char \<Rightarrow> bool" where
  "ci_char_compare a b = (tolower a = tolower b)"

subsection \<open>\<open>parse_url\<close>\<close>

text \<open>The loop body of step 3: a segment with a \<open>=\<close> stores its raw halves.\<close>

fun query_segments :: "string list \<Rightarrow> (string \<rightharpoonup> string) \<Rightarrow> (string \<rightharpoonup> string)" where
  "query_segments [] ps = ps"
| "query_segments (segment # segs) ps =
     (case find_char segment (CHR ''='') 0 of
        None \<Rightarrow> query_segments segs ps
      | Some eqPos \<Rightarrow>
          (let key = substr segment 0 eqPos;
               val = substr_from segment (eqPos + 1)
           in query_segments segs (ps(key \<mapsto> val))))"

definition parse_url :: "string \<Rightarrow> RequestInfo" where
  "parse_url url =
     (let pos = find_char url (CHR ''?'') 0;
          info = (case pos of
                    None \<Rightarrow> new_RequestInfo\<lparr>path := url, query := []\<rparr>
                  | Some p \<Rightarrow> new_RequestInfo\<lparr>path := substr url 0 p, query := substr_from url (p + 1)\<rparr>);
          info = (if path info = ''/'' then info\<lparr>path := ''/index.html''\<rparr> else info);
          info = (if path info \<noteq> [] \<and> path info ! 0 = CHR ''/''
                  then info\<lparr>path := drop 1 (path info)\<rparr> else info)
      in info\<lparr>params := query_segments (getline_split (CHR ''&'') (query info)) (params info)\<rparr>)"

subsection \<open>\<open>url_decode\<close> and \<open>parse_form_body\<close>\<close>

text \<open>
  The \<open>for\<close> loop of \<open>url_decode\<close>, with its index \<open>i\<close> and the string built so far.
  \<open>static_cast<char>\<close> keeps the low eight bits, as \<open>char_of\<close> does.
\<close>

function url_decode_loop :: "string \<Rightarrow> nat \<Rightarrow> string \<Rightarrow> error + string" where
  "url_decode_loop str i decoded =
     (if i < length str then
        (if str ! i = CHR ''+'' then url_decode_loop str (i + 1) (decoded @ '' '')
         else if str ! i = CHR ''%'' \<and> i + 2 < length str then
           (case stoul16 (substr str (i + 1) 2) of
              Inl e \<Rightarrow> Inl e
            | Inr v \<Rightarrow> url_decode_loop str (i + 2 + 1) (decoded @ [char_of v]))
         else url_decode_loop str (i + 1) (decoded @ [str ! i]))
      else Inr decoded)"
  by pat_completeness auto
termination
  by (relation "measure (\<lambda>(str, i, decoded). length str - i)") auto

declare url_decode_loop.simps [simp del]

definition url_decode :: "string \<Rightarrow> error + string" where
  "url_decode str = url_decode_loop str 0 []"

fun form_segments :: "string list \<Rightarrow> RequestInfo \<Rightarrow> error + RequestInfo" where
  "form_segments [] info = Inr info"
| "form_segments (segment # segs) info =
     (case find_char segment (CHR ''='') 0 of
        None \<Rightarrow> form_segments segs info
      | Some eqPos \<Rightarrow>
          (case url_decode (substr segment 0 eqPos) of
             Inl e \<Rightarrow> Inl e
           | Inr key \<Rightarrow>
               (case url_decode (substr_from segment (eqPos + 1)) of
                  Inl e \<Rightarrow> Inl e
                | Inr val \<Rightarrow> form_segments segs (info\<lparr>params := (params info)(key \<mapsto> val)\<rparr>))))"

definition parse_form_body :: "string \<Rightarrow> RequestInfo \<Rightarrow> error + RequestInfo" where
  "parse_form_body form_body info = form_segments (getline_split (CHR ''&'') form_body) info"

subsection \<open>\<open>parse_json_body\<close>\<close>

datatype State = SEARCHING | KEY | VALUE

text \<open>
  The inner \<open>while\<close> loop that reads a quoted value: it returns the index it stopped at
  and the value built so far.
\<close>

function json_string :: "string \<Rightarrow> nat \<Rightarrow> string \<Rightarrow> nat \<times> string" where
  "json_string bdy i currentValue =
     (if i < length bdy then
        (if bdy ! i = CHR 0x5C \<and> i + 1 < length bdy \<and> bdy ! (i + 1) = CHR 0x22
         then json_string bdy (i + 2) (currentValue @ [CHR 0x22])
         else if bdy ! i = CHR 0x22 then (i, currentValue)
         else json_string bdy (i + 1) (currentValue @ [bdy ! i]))
      else (i, currentValue))"
  by pat_completeness auto
termination
  by (relation "measure (\<lambda>(bdy, i, v). length bdy - i)") auto

declare json_string.simps [simp del]

lemma json_string_advances: "i \<le> fst (json_string bdy i v)"
proof (induction bdy i v rule: json_string.induct)
  case (1 bdy i v)
  show ?case
    using "1.IH" by (subst json_string.simps) auto
qed

text \<open>
  The \<open>for\<close> loop over the body (\<open>bdy\<close>): index, scanner state, the key and value being built,
  and the parameter map.
\<close>

function json_loop ::
  "string \<Rightarrow> nat \<Rightarrow> State \<Rightarrow> string \<Rightarrow> string \<Rightarrow> (string \<rightharpoonup> string) \<Rightarrow> (string \<rightharpoonup> string)" where
  "json_loop bdy i state currentKey currentValue ps =
     (if i < length bdy then
        (let c = bdy ! i in
         case state of
           SEARCHING \<Rightarrow>
             json_loop bdy (i + 1) (if c = CHR 0x22 then KEY else SEARCHING) currentKey currentValue ps
         | KEY \<Rightarrow>
             (if c = CHR 0x22 then json_loop bdy (i + 1) VALUE currentKey currentValue ps
              else json_loop bdy (i + 1) KEY (currentKey @ [c]) currentValue ps)
         | VALUE \<Rightarrow>
             (if c = CHR '':'' \<or> isspace c then json_loop bdy (i + 1) VALUE currentKey currentValue ps
              else if c = CHR '','' \<or> c = CHR ''}'' then
                (if currentKey \<noteq> [] then json_loop bdy (i + 1) SEARCHING [] [] (ps(currentKey \<mapsto> currentValue))
                 else json_loop bdy (i + 1) SEARCHING currentKey currentValue ps)
              else if c = CHR 0x22 then
                json_loop bdy (fst (json_string bdy (i + 1) currentValue) + 1) VALUE currentKey
                  (snd (json_string bdy (i + 1) currentValue)) ps
              else json_loop bdy (i + 1) VALUE currentKey (currentValue @ [c]) ps))
      else ps)"
  by pat_completeness auto
termination
proof (relation "measure (\<lambda>(bdy, i, state, k, v, ps). length bdy - i)", goal_cases)
  case (8 bdy i state currentKey currentValue ps x)
  have "i + 1 \<le> fst (json_string bdy (i + 1) currentValue)"
    by (rule json_string_advances)
  with 8(1) show ?case unfolding in_measure prod.case by linarith
qed (simp_all (no_asm_simp))

declare json_loop.simps [simp del]

definition parse_json_body :: "string \<Rightarrow> RequestInfo \<Rightarrow> RequestInfo" where
  "parse_json_body b info = info\<lparr>params := json_loop b 0 SEARCHING [] [] (params info)\<rparr>"

subsection \<open>\<open>get_mime_type\<close>\<close>

definition mime_types :: "(string \<times> string) list" where
  "mime_types = [(''.html'', ''text/html''), (''.css'', ''text/css''),
     (''.js'', ''application/javascript''), (''.jpg'', ''image/jpeg''),
     (''.jpeg'', ''image/jpeg''), (''.png'', ''image/png'')]"

definition get_mime_type :: "string \<Rightarrow> string" where
  "get_mime_type p =
     (case find_last_of p (CHR ''.'') of
        None \<Rightarrow> ''text/plain''
      | Some dot_pos \<Rightarrow>
          (case map_of mime_types (substr_from p dot_pos) of
             Some t \<Rightarrow> t
           | None \<Rightarrow> ''text/plain''))"

subsection \<open>\<open>extract_header_value\<close>\<close>

text \<open>
  The iterators range over the first \<open>max_pos\<close> characters of \<open>full_data\<close>; the caller
  passes the position of the header/body delimiter, which lies inside the string.
\<close>

definition extract_header_value :: "string \<Rightarrow> nat \<Rightarrow> string \<Rightarrow> string" where
  "extract_header_value full_data max_pos target =
     (let hdr = take max_pos full_data;
          it = search ci_char_compare hdr target
      in if it = max_pos then []
         else
           (let it = it + length target;
                rest = dropWhile (\<lambda>c. c = CHR '' '' \<or> c = CHR '':'') (drop it hdr)
            in takeWhile (\<lambda>c. c \<noteq> CR) rest))"

section \<open>Server.cpp\<close>

definition MAX_READ_BUFFER :: nat where "MAX_READ_BUFFER = 30000"
definition CHUNK_BUFFER_SIZE :: nat where "CHUNK_BUFFER_SIZE = 4096"
definition HTTP_DELIM :: string where "HTTP_DELIM = CRLF @ CRLF"
definition PUBLIC_DIR :: string where "PUBLIC_DIR = ''public/''"
definition DEFAULT_INDEX :: string where "DEFAULT_INDEX = ''index.html''"
definition HDR_CONNECTION :: string where "HDR_CONNECTION = ''Connection:''"
definition HDR_CONTENT_LEN :: string where "HDR_CONTENT_LEN = ''Content-Length:''"
definition HDR_CONTENT_TYPE :: string where "HDR_CONTENT_TYPE = ''Content-Type:''"
definition MIME_URLENCODED :: string where "MIME_URLENCODED = ''application/x-www-form-urlencoded''"
definition MIME_JSON :: string where "MIME_JSON = ''application/json''"

subsection \<open>\<open>HttpServer::handle_static_file\<close>\<close>

text \<open>
  The file system is a partial map from a path to what an \<open>std::ifstream\<close> finds
  there when the open succeeds: a regular file with its content, or something that opens
  without being one, as a directory below \<open>public/\<close> does. For the latter \<open>tellg\<close>
  after the open at the end reports no size a string can have (a failure, or the largest
  offset), and \<open>res.body.resize(size)\<close> throws \<open>std::length_error\<close>. Next to the
  response, the model returns the paths for which a stream was constructed.
\<close>

datatype fs_entry = RegularFile string | Directory

type_synonym filesystem = "string \<rightharpoonup> fs_entry"

definition handle_static_file :: "filesystem \<Rightarrow> string \<Rightarrow> error + Response \<times> string list" where
  "handle_static_file fs requested_path =
     (let res = new_Response in
      if find_str requested_path ''..'' 0 \<noteq> None then
        Inr (res\<lparr>status_code := 403, status_text := ''Forbidden'',
                 body := ''<h1>403 Forbidden: Directory traversal detected</h1>''\<rparr>, [])
      else
        (let safe_path = PUBLIC_DIR @ requested_path in
         case fs safe_path of
           Some (RegularFile content) \<Rightarrow>
             Inr (res\<lparr>body := content, content_type := get_mime_type safe_path\<rparr>, [safe_path])
         | Some Directory \<Rightarrow> Inl LengthError
         | None \<Rightarrow>
             Inr (res\<lparr>status_code := 404, status_text := ''Not Found'',
                      body := ''<h1>404: File Not Found</h1>''\<rparr>, [safe_path])))"

subsection \<open>The socket\<close>

text \<open>
  What the client will send, as the list of the chunks that arrive. \<open>read(fd, buf, n)\<close>
  takes at most \<open>n\<close> bytes of the first chunk and leaves the rest of it for the next
  call. A result \<open>\<le> 0\<close> (end of stream, timeout, error) is the empty string here: it is
  what an exhausted list and an empty chunk give.
\<close>

type_synonym socket = "string list"

fun sock_read :: "nat \<Rightarrow> socket \<Rightarrow> string \<times> socket" where
  "sock_read n [] = ([], [])"
| "sock_read n (c # cs) = (if length c \<le> n then (c, cs) else (take n c, drop n c # cs))"

definition sock_size :: "socket \<Rightarrow> nat" where
  "sock_size sock = sum_list (map (\<lambda>c. Suc (length c)) sock)"

subsection \<open>\<open>HttpServer::handle_client\<close>: one request\<close>

text \<open>
  Lines 171 to 185: method and target are cut out of the request line, the target is
  parsed, and the \<open>Connection\<close> header is looked at. When \<open>find\<close> returns \<open>npos\<close>,
  \<open>first_space + 1\<close> wraps around to 0, and a length of \<open>npos\<close> or more takes the rest
  of the string.
\<close>

definition request_head :: "string \<Rightarrow> nat \<Rightarrow> RequestInfo" where
  "request_head requestData body_pos =
     (let first_space = find_char requestData (CHR '' '') 0;
          start = (case first_space of None \<Rightarrow> 0 | Some i \<Rightarrow> i + 1);
          second_space = find_char requestData (CHR '' '') start;
          method_str = (case first_space of None \<Rightarrow> requestData | Some i \<Rightarrow> substr requestData 0 i);
          rawUrl = (case second_space of
                      None \<Rightarrow> substr_from requestData start
                    | Some j \<Rightarrow> substr requestData start (j - start));
          req = (parse_url rawUrl)\<lparr>req_method := method_str\<rparr>;
          conn_header = extract_header_value requestData body_pos HDR_CONNECTION
      in if find_str conn_header ''close'' 0 \<noteq> None \<or> find_str conn_header ''Close'' 0 \<noteq> None
         then req\<lparr>req_keep_alive := False\<rparr> else req)"

text \<open>
  Lines 209 to 220: the loop that reads the rest of the body. It returns the request
  data, the socket, and the number of \<open>read\<close> calls it has made.
\<close>

function read_body :: "socket \<Rightarrow> string \<Rightarrow> nat \<Rightarrow> nat \<Rightarrow> nat \<Rightarrow> string \<times> socket \<times> nat" where
  "read_body sock requestData current_body_len content_length reads =
     (if current_body_len < content_length then
        (let to_read = min CHUNK_BUFFER_SIZE (content_length - current_body_len);
             extra = fst (sock_read to_read sock);
             sock' = snd (sock_read to_read sock)
         in if extra = [] then (requestData, sock', reads + 1)
            else read_body sock' (requestData @ extra) (current_body_len + length extra)
                   content_length (reads + 1))
      else (requestData, sock, reads))"
  by pat_completeness auto
termination
  by (relation "measure (\<lambda>(sock, d, cur, len, reads). len - cur)")
    (auto intro!: diff_less_mono2)

declare read_body.simps [simp del]

text \<open>Lines 243 to 247: the path that is looked up in the route table.\<close>

definition normalize_path :: "string \<Rightarrow> string" where
  "normalize_path p =
     (let p = (if p = [] \<or> p = ''/'' \<or> p = ''public'' \<or> p = PUBLIC_DIR then DEFAULT_INDEX else p)
      in if length p \<ge> length PUBLIC_DIR \<and> substr p 0 (length PUBLIC_DIR) = PUBLIC_DIR
         then substr_from p (length PUBLIC_DIR) else p)"

type_synonym routes = "string \<rightharpoonup> (RequestInfo \<Rightarrow> Response)"

text \<open>
  What one pass through the loop body leaves behind: the request as it was dispatched,
  the response as finalized, the bytes handed to \<open>send\<close>, the number of \<open>read\<close> calls
  made for the body, the files opened, and the socket. The \<open>send\<close> loop and
  \<open>log_request\<close> write to the client and to the console and change nothing that the
  loop looks at afterwards; they have no counterpart here.
\<close>

record exchange =
  ex_req :: RequestInfo
  ex_res :: Response
  ex_sent :: string
  ex_body_reads :: nat
  ex_opened :: "string list"
  ex_sock :: socket

text \<open>Lines 229 to 240: the body decoder chosen by \<open>Content-Type\<close> for a \<open>POST\<close>.\<close>

definition parse_post_body :: "string \<Rightarrow> nat \<Rightarrow> RequestInfo \<Rightarrow> error + RequestInfo" where
  "parse_post_body requestData body_pos req =
     (if req_method req = ''POST'' then
        (let contentType = extract_header_value requestData body_pos HDR_CONTENT_TYPE in
         if find_str contentType MIME_URLENCODED 0 \<noteq> None then parse_form_body (req_body req) req
         else if find_str contentType MIME_JSON 0 \<noteq> None then Inr (parse_json_body (req_body req) req)
         else Inr req)
      else Inr req)"

text \<open>Lines 260 to 265: the keep-alive decision and the serialisation.\<close>

definition finalize :: "RequestInfo \<Rightarrow> Response \<Rightarrow> nat \<Rightarrow> string list \<Rightarrow> socket \<Rightarrow> exchange" where
  "finalize req res reads opened sock =
     (let res = res\<lparr>keep_alive := req_keep_alive req\<rparr>;
          res = (if status_code res \<ge> 400 then res\<lparr>keep_alive := False\<rparr> else res)
      in \<lparr>ex_req = req, ex_res = res, ex_sent = to_string res, ex_body_reads = reads,
          ex_opened = opened, ex_sock = sock\<rparr>)"

text \<open>Lines 226 to 258, then the finalisation: routing and execution.\<close>

definition route_request ::
  "routes \<Rightarrow> filesystem \<Rightarrow> string \<Rightarrow> nat \<Rightarrow> RequestInfo \<Rightarrow> nat \<Rightarrow> socket \<Rightarrow> error + exchange" where
  "route_request rts fs requestData body_pos req reads sock =
     (case parse_post_body requestData body_pos req of
        Inl e \<Rightarrow> Inl e
      | Inr req \<Rightarrow>
          (let req = req\<lparr>path := normalize_path (path req)\<rparr> in
           case rts (path req) of
             Some handler \<Rightarrow> Inr (finalize req (handler req) reads [] sock)
           | None \<Rightarrow>
               (case handle_static_file fs (path req) of
                  Inl e \<Rightarrow> Inl e
                | Inr r \<Rightarrow> Inr (finalize req (fst r) reads (snd r) sock))))"

text \<open>
  The loop body from line 171 on, for the data of the first \<open>read\<close> and the position of
  the delimiter in it. An exception that \<open>std::stoull\<close>, \<open>url_decode\<close> or
  \<open>handle_static_file\<close> throws leaves the function: the result is \<open>Inl\<close>.
\<close>

definition handle_request ::
  "routes \<Rightarrow> filesystem \<Rightarrow> string \<Rightarrow> nat \<Rightarrow> socket \<Rightarrow> error + exchange" where
  "handle_request rts fs requestData body_pos sock =
     (let req = request_head requestData body_pos;
          content_len_str = extract_header_value requestData body_pos HDR_CONTENT_LEN;
          res = new_Response
      in if content_len_str \<noteq> [] then
           (case stoull content_len_str of
              Inl e \<Rightarrow> Inl e
            | Inr content_length \<Rightarrow>
                if content_length > MAX_PAYLOAD_SIZE then
                  Inr (finalize req
                        (res\<lparr>status_code := 413, status_text := ''Payload Too Large'',
                             content_type := ''text/plain'', body := ''Payload exceeds limits.''\<rparr>)
                        0 [] sock)
                else
                  (let current_body_len = length requestData - (body_pos + 4);
                       rb = read_body sock requestData current_body_len content_length 0;
                       requestData = fst rb;
                       req = req\<lparr>req_body := substr requestData (body_pos + 4) content_length\<rparr>
                   in route_request rts fs requestData body_pos req (snd (snd rb)) (fst (snd rb))))
         else route_request rts fs requestData body_pos req 0 sock)"

text \<open>The loop reads from the socket at least once per pass and never puts data back.\<close>

lemma sock_read_size: "sock_size (snd (sock_read n sock)) \<le> sock_size sock"
  by (cases sock) (auto simp: sock_size_def)

lemma sock_read_shrinks:
  "fst (sock_read n sock) \<noteq> [] \<Longrightarrow> sock_size (snd (sock_read n sock)) < sock_size sock"
  by (cases sock) (auto simp: sock_size_def)

lemma read_body_size:
  "sock_size (fst (snd (read_body sock d cur len r))) \<le> sock_size sock"
proof (induction sock d cur len r rule: read_body.induct)
  case (1 sock d cur len r)
  show ?case
    using "1.IH" sock_read_size [of "min CHUNK_BUFFER_SIZE (len - cur)" sock]
    by (subst read_body.simps) (auto simp: Let_def intro: order_trans)
qed

lemma finalize_sock: "ex_sock (finalize req res reads opened sock) = sock"
  by (simp add: finalize_def Let_def)

lemma route_request_sock:
  "route_request rts fs d bp req reads sock = Inr ex \<Longrightarrow> ex_sock ex = sock"
  by (auto simp: route_request_def Let_def finalize_sock split: sum.splits option.splits)

lemma handle_request_size:
  "handle_request rts fs d bp sock = Inr ex \<Longrightarrow> sock_size (ex_sock ex) \<le> sock_size sock"
  by (auto simp: handle_request_def Let_def finalize_sock read_body_size
      split: sum.splits if_splits dest!: route_request_sock)

subsection \<open>\<open>HttpServer::handle_client\<close>: the keep-alive loop\<close>

text \<open>
  The loop ends when the connection is closed (a \<open>break\<close>, then \<open>close\<close>) or when
  an exception leaves \<open>handle_client\<close>, which terminates the process as nothing catches
  it. The result lists the exchanges completed before that.
\<close>

datatype ending = Closed | Terminated error

function handle_client :: "routes \<Rightarrow> filesystem \<Rightarrow> socket \<Rightarrow> exchange list \<times> ending" where
  "handle_client rts fs sock =
     (let requestData = fst (sock_read MAX_READ_BUFFER sock);
          sock' = snd (sock_read MAX_READ_BUFFER sock)
      in if requestData = [] then ([], Closed)
         else
           (case find_str requestData HTTP_DELIM 0 of
              None \<Rightarrow> ([], Closed)
            | Some body_pos \<Rightarrow>
                (case handle_request rts fs requestData body_pos sock' of
                   Inl e \<Rightarrow> ([], Terminated e)
                 | Inr ex \<Rightarrow>
                     if \<not> keep_alive (ex_res ex) then ([ex], Closed)
                     else (let rest = handle_client rts fs (ex_sock ex)
                           in (ex # fst rest, snd rest)))))"
  by pat_completeness auto
termination
proof (relation "measure (\<lambda>(rts, fs, sock). sock_size sock)", goal_cases)
  case 1
  show ?case by simp
next
  case (2 rts fs sock requestData sock' body_pos ex)
  have "sock_size (ex_sock ex) \<le> sock_size sock'"
    using 2 by (auto intro: handle_request_size)
  moreover have "sock_size sock' < sock_size sock"
    using 2 by (auto intro: sock_read_shrinks)
  ultimately show ?case by simp
qed

declare handle_client.simps [simp del]

section \<open>What finalisation establishes\<close>

text \<open>
  The state in which line 265 serialises a response: the flag of the response is that of
  the request, cleared when the status is 400 or more, and the bytes sent are its
  serialisation.
\<close>

definition finalized :: "exchange \<Rightarrow> bool" where
  "finalized ex \<longleftrightarrow>
     keep_alive (ex_res ex) = (req_keep_alive (ex_req ex) \<and> status_code (ex_res ex) < 400)
     \<and> ex_sent ex = to_string (ex_res ex)"

section \<open>Results that may be exceptions\<close>

text \<open>A result that is passed on when it is an exception and transformed otherwise.\<close>

definition map_ok :: "('a \<Rightarrow> 'b) \<Rightarrow> error + 'a \<Rightarrow> error + 'b" where
  "map_ok f r = (case r of Inl e \<Rightarrow> Inl e | Inr x \<Rightarrow> Inr (f x))"

section \<open>Evaluation and searching\<close>

text \<open>The equations that evaluate the model on a concrete input.\<close>

lemmas char_eval = char_of_def bit_Suc_0_iff tolower_def isspace_def digit_val_def
  is_digit_in_def CR_def LF_def CRLF_def ci_char_compare_def

lemmas string_eval = find_str_def find_char_def find_last_of_def substr_def substr_from_def
  getline_split_def search_def

lemmas number_eval = stoull_def stoul16_def sto_unsigned_def digits_value_def
  has_hex_prefix_def Let_def

lemmas decode_eval = url_decode_def url_decode_loop.simps parse_form_body_def

lemmas response_eval = to_string_def show_nat.simps show_int_def header_line_def

lemmas server_eval = handle_client.simps handle_request_def request_head_def route_request_def
  parse_post_body_def finalize_def normalize_path_def handle_static_file_def read_body.simps
  extract_header_value_def parse_url_def new_RequestInfo_def new_Response_def
  MAX_READ_BUFFER_def CHUNK_BUFFER_SIZE_def HTTP_DELIM_def PUBLIC_DIR_def DEFAULT_INDEX_def
  HDR_CONNECTION_def HDR_CONTENT_LEN_def HDR_CONTENT_TYPE_def MIME_URLENCODED_def MIME_JSON_def
  MAX_PAYLOAD_SIZE_def

text \<open>\<open>find\<close> succeeds exactly on the strings that contain what is searched for.\<close>

lemma find_aux_Some_iff:
  "find_aux t s i \<noteq> None \<longleftrightarrow> (\<exists>a b. s = a @ t @ b)"
proof (induction s arbitrary: i)
  case Nil
  show ?case by simp
next
  case (Cons c s)
  show ?case
  proof (cases "take (length t) (c # s) = t")
    case True
    then have "c # s = [] @ t @ drop (length t) (c # s)"
      by (metis append_Nil append_take_drop_id)
    then have "\<exists>a b. c # s = a @ t @ b" by blast
    with True show ?thesis by simp
  next
    case False
    have "(\<exists>a b. c # s = a @ t @ b) \<longleftrightarrow> (\<exists>a b. s = a @ t @ b)"
    proof
      assume "\<exists>a b. c # s = a @ t @ b"
      then obtain a b where ab: "c # s = a @ t @ b" by blast
      show "\<exists>a b. s = a @ t @ b"
      proof (cases a)
        case Nil
        with ab have "take (length t) (c # s) = t" by simp
        with False show ?thesis by simp
      next
        case (Cons x a')
        with ab have "s = a' @ t @ b" by simp
        then show ?thesis by blast
      qed
    next
      assume "\<exists>a b. s = a @ t @ b"
      then obtain a b where "s = a @ t @ b" by blast
      then have "c # s = (c # a) @ t @ b" by simp
      then show "\<exists>a b. c # s = a @ t @ b" by blast
    qed
    with False Cons.IH show ?thesis by simp
  qed
qed

lemma find_str_0_iff: "find_str s t 0 \<noteq> None \<longleftrightarrow> (\<exists>a b. s = a @ t @ b)"
  using find_aux_Some_iff [of t s 0] by (simp add: find_str_def)

text \<open>Searching for a single character, and cutting at a delimiter.\<close>

lemma find_aux_char_absent: "c \<notin> set s \<Longrightarrow> find_aux [c] s i = None"
  by (induction s arbitrary: i) auto

lemma find_aux_char_first: "c \<notin> set a \<Longrightarrow> find_aux [c] (a @ c # b) i = Some (i + length a)"
  by (induction a arbitrary: i) auto

lemma find_char_absent: "c \<notin> set s \<Longrightarrow> find_char s c 0 = None"
  by (simp add: find_char_def find_str_def find_aux_char_absent)

lemma find_char_first: "c \<notin> set a \<Longrightarrow> find_char (a @ c # b) c 0 = Some (length a)"
  by (simp add: find_char_def find_str_def find_aux_char_first)

lemma getline_aux_no_delim:
  "d \<notin> set s \<Longrightarrow> getline_aux d seg s = (if seg @ s = [] then [] else [seg @ s])"
  by (induction s arbitrary: seg) auto

lemma getline_aux_delim:
  "d \<notin> set a \<Longrightarrow> getline_aux d seg (a @ d # b) = (seg @ a) # getline_aux d [] b"
  by (induction a arbitrary: seg) auto

section \<open>The static asset resolver\<close>

text \<open>
  Claim C1. Whenever the requested path contains the two characters \<open>..\<close> anywhere,
  \<open>handle_static_file\<close> answers with status 403 and constructs no file stream,
  whatever the file system holds and wherever the path would lead.
\<close>

theorem static_traversal_forbidden:
  assumes "requested_path = a @ ''..'' @ b"
  shows "\<exists>res. handle_static_file fs requested_path = Inr (res, []) \<and> status_code res = 403"
proof -
  have "find_str requested_path ''..'' 0 \<noteq> None"
    using assms find_str_0_iff by blast
  then show ?thesis
    by (simp add: handle_static_file_def Let_def)
qed

text \<open>
  The path \<open>a/../b.txt\<close> stays below the asset root, where a file of that name exists;
  it is refused all the same.
\<close>

theorem static_traversal_forbidden_witness:
  "handle_static_file [''public/a/../b.txt'' \<mapsto> RegularFile ''x''] ''a/../b.txt'' =
     Inr (\<lparr>status_code = 403, status_text = ''Forbidden'', content_type = ''text/html'',
            body = ''<h1>403 Forbidden: Directory traversal detected</h1>'', headers = [],
            keep_alive = True\<rparr>, [])"
  using static_traversal_forbidden
    [of "''a/../b.txt''" "''a/''" "''/b.txt''" "[''public/a/../b.txt'' \<mapsto> RegularFile ''x'']"]
  by (simp add: handle_static_file_def new_Response_def string_eval Let_def)

text \<open>
  A path that names a directory below the asset root is not refused: the stream opens,
  the resize throws, and the process ends without a response.
\<close>

lemma static_directory_terminates:
  "handle_static_file [''public/css'' \<mapsto> Directory] ''css'' = Inl LengthError
   \<and> handle_client Map.empty [''public/css'' \<mapsto> Directory] [''GET /css HTTP/1.1'' @ CRLF @ CRLF]
      = ([], Terminated LengthError)"
  by (simp add: server_eval decode_eval string_eval number_eval char_eval)

section \<open>Percent and plus decoding\<close>

lemma map_ok_simps [simp]: "map_ok f (Inl e) = Inl e" "map_ok f (Inr x) = Inr (f x)"
  by (simp_all add: map_ok_def)









lemma digit_val_facts:
  assumes "digit_val c = Some a"
  shows "a < 16" "\<not> isspace c" "c \<noteq> CHR ''-''" "c \<noteq> CHR ''+''" "is_digit_in 16 c"
  using assms
  by (auto simp: digit_val_def isspace_def is_digit_in_def Let_def split: if_splits)







text \<open>
  Claim C3. \<open>url_decode\<close> is expected to return a string for every input. On \<open>%zz\<close>
  the two characters after the \<open>%\<close> are handed to \<open>std::stoul\<close>, which finds no digit
  and throws; a form body that contains them takes \<open>parse_form_body\<close> with it, and a
  \<open>POST\<close> that carries such a body ends the process before any response is sent.
\<close>

theorem url_decode_throws:
  "url_decode ''%zz'' = Inl InvalidArgument
   \<and> parse_form_body ''a=%zz'' info = Inl InvalidArgument
   \<and> handle_client rts fs
        [''POST /x HTTP/1.1'' @ CRLF @ ''Content-Type: application/x-www-form-urlencoded'' @ CRLF
          @ ''Content-Length: 5'' @ CRLF @ CRLF @ ''a=%zz'']
      = ([], Terminated InvalidArgument)"
  by (simp add: server_eval decode_eval string_eval number_eval char_eval)

section \<open>The serialised response\<close>

lemma foldl_header_lines:
  "foldl (\<lambda>oss kv. oss @ fst kv @ '': '' @ snd kv @ CRLF) acc hs = acc @ concat (map header_line hs)"
  by (induction hs arbitrary: acc) (simp_all add: header_line_def)

lemma to_string_layout:
  "to_string r =
     ''HTTP/1.1 '' @ show_int (status_code r) @ '' '' @ status_text r @ CRLF
     @ ''Content-Type: '' @ content_type r @ CRLF
     @ ''Content-Length: '' @ show_nat (length (body r)) @ CRLF
     @ ''Connection: '' @ (if keep_alive r then ''keep-alive'' else ''close'') @ CRLF
     @ concat (map header_line (headers r))
     @ CRLF @ body r"
  unfolding to_string_def Let_def foldl_header_lines by simp

text \<open>
  The decimal digits that \<open>operator<<\<close> prints for a length are read back as that
  length by \<open>std::stoull\<close>.
\<close>

lemma digit_code: "d < 10 \<Longrightarrow> (of_char (char_of (48 + d :: nat)) :: nat) = 48 + d"
  by simp

lemma digit_val_digit: "d < 10 \<Longrightarrow> digit_val (char_of (48 + d :: nat)) = Some d"
  by (simp add: digit_val_def Let_def)

lemma digit_not_space: "d < 10 \<Longrightarrow> \<not> isspace (char_of (48 + d :: nat))"
  by (simp add: isspace_def Let_def)

lemma digit_not_sign:
  assumes "d < 10"
  shows "char_of (48 + d :: nat) \<noteq> CHR ''-''" "char_of (48 + d :: nat) \<noteq> CHR ''+''"
proof -
  have "(of_char (char_of (48 + d :: nat)) :: nat) \<noteq> of_char (CHR ''-'')"
    using assms by simp
  then show "char_of (48 + d :: nat) \<noteq> CHR ''-''" by metis
  have "(of_char (char_of (48 + d :: nat)) :: nat) \<noteq> of_char (CHR ''+'')"
    using assms by simp
  then show "char_of (48 + d :: nat) \<noteq> CHR ''+''" by metis
qed

lemma show_nat_digits: "c \<in> set (show_nat n) \<Longrightarrow> is_digit_in 10 c"
proof (induction n rule: show_nat.induct)
  case (1 n)
  show ?case
  proof (cases "n < 10")
    case True
    with "1.prems" show ?thesis
      by (simp add: show_nat.simps [of n] is_digit_in_def digit_val_digit)
  next
    case False
    have "is_digit_in 10 (char_of (48 + n mod 10))"
      by (simp add: is_digit_in_def digit_val_digit)
    with False "1.prems" "1.IH" show ?thesis
      by (auto simp: show_nat.simps [of n])
  qed
qed

lemma show_nat_hd:
  "\<exists>(d::nat) r. d < 10 \<and> show_nat n = char_of (48 + d) # r"
proof (induction n rule: show_nat.induct)
  case (1 n)
  show ?case
  proof (cases "n < 10")
    case True
    then show ?thesis by (auto simp: show_nat.simps [of n])
  next
    case False
    with "1.IH" obtain d :: nat and r where "d < 10" "show_nat (n div 10) = char_of (48 + d) # r"
      by blast
    with False show ?thesis by (auto simp: show_nat.simps [of n])
  qed
qed

lemma digits_value_snoc:
  "digits_value base (ds @ [c]) =
     (case digit_val c of None \<Rightarrow> digits_value base ds | Some d \<Rightarrow> digits_value base ds * base + d)"
  by (simp add: digits_value_def split: option.splits)

lemma digits_value_show_nat: "digits_value 10 (show_nat n) = n"
proof (induction n rule: show_nat.induct)
  case (1 n)
  show ?case
  proof (cases "n < 10")
    case True
    then show ?thesis
      by (simp add: show_nat.simps [of n] digits_value_def digit_val_digit)
  next
    case False
    with "1.IH" show ?thesis
      by (simp add: show_nat.simps [of n] digits_value_snoc digit_val_digit)
  qed
qed

lemma stoull_digits:
  assumes "s \<noteq> []" "\<forall>c\<in>set s. is_digit_in 10 c" "digits_value 10 s < 2 ^ 64"
  shows "stoull s = Inr (digits_value 10 s)"
proof -
  obtain c r where s: "s = c # r"
    using assms(1) by (cases s) auto
  then have "is_digit_in 10 c"
    using assms(2) by simp
  then obtain a where "digit_val c = Some a"
    by (auto simp: is_digit_in_def split: option.splits)
  then have c: "\<not> isspace c" "c \<noteq> CHR ''-''" "c \<noteq> CHR ''+''"
    by (rule digit_val_facts)+
  have drop: "dropWhile isspace s = s"
    using c(1) by (simp add: s)
  have take: "takeWhile (is_digit_in 10) s = s"
    using assms(2) by (simp add: takeWhile_eq_all_conv)
  have "sto_unsigned 10 (c # r) = Inr (digits_value 10 (c # r))"
    unfolding sto_unsigned_def Let_def
    using c assms(3) drop take unfolding s by simp
  then show ?thesis
    by (simp add: stoull_def s)
qed

lemma stoull_show_nat:
  assumes "n < 2 ^ 64"
  shows "stoull (show_nat n) = Inr n"
proof -
  have "show_nat n \<noteq> []"
    using show_nat_hd [of n] by auto
  then show ?thesis
    using stoull_digits [of "show_nat n"] show_nat_digits assms
    by (simp add: digits_value_show_nat)
qed

text \<open>
  Claim C5. The serialised response is the status line, then \<open>Content-Type\<close>,
  \<open>Content-Length\<close> and \<open>Connection\<close> in this order, then the additional headers, an
  empty line, and the body unchanged. \<open>Connection\<close> is \<open>keep-alive\<close> when the flag is
  true and \<open>close\<close> when it is false. The value of \<open>Content-Length\<close> is the decimal
  numeral of the length of the body: read as a number it is that length.
\<close>

theorem to_string_format:
  "to_string r =
     ''HTTP/1.1 '' @ show_int (status_code r) @ '' '' @ status_text r @ CRLF
     @ ''Content-Type: '' @ content_type r @ CRLF
     @ ''Content-Length: '' @ show_nat (length (body r)) @ CRLF
     @ ''Connection: '' @ (if keep_alive r then ''keep-alive'' else ''close'') @ CRLF
     @ concat (map header_line (headers r))
     @ CRLF @ body r
   \<and> (length (body r) < 2 ^ 64 \<longrightarrow> stoull (show_nat (length (body r))) = Inr (length (body r)))"
  using to_string_layout [of r] stoull_show_nat [of "length (body r)"] by blast

text \<open>A response with two additional headers and a body of twelve bytes.\<close>

theorem to_string_format_witness:
  "to_string \<lparr>status_code = 201, status_text = ''Created'', content_type = ''text/plain'',
      body = ''hello, world'', headers = [(''Location'', ''/m/7''), (''X-Id'', ''7'')],
      keep_alive = False\<rparr>
     = ''HTTP/1.1 201 Created'' @ CRLF @ ''Content-Type: text/plain'' @ CRLF
       @ ''Content-Length: 12'' @ CRLF @ ''Connection: close'' @ CRLF
       @ ''Location: /m/7'' @ CRLF @ ''X-Id: 7'' @ CRLF @ CRLF @ ''hello, world''
   \<and> length ''hello, world'' < (2::nat) ^ 64
   \<and> stoull ''12'' = Inr 12"
  using to_string_format [of "\<lparr>status_code = 201, status_text = ''Created'',
      content_type = ''text/plain'', body = ''hello, world'',
      headers = [(''Location'', ''/m/7''), (''X-Id'', ''7'')], keep_alive = False\<rparr>"]
  by (simp add: response_eval number_eval char_eval)

section \<open>The keep-alive decision\<close>

lemma finalize_req [simp]: "ex_req (finalize req res reads opened sock) = req"
  by (simp add: finalize_def Let_def)

lemma finalize_reads [simp]: "ex_body_reads (finalize req res reads opened sock) = reads"
  by (simp add: finalize_def Let_def)

lemma finalize_status [simp]:
  "status_code (ex_res (finalize req res reads opened sock)) = status_code res"
  by (simp add: finalize_def Let_def)

lemma finalize_keep_alive:
  "keep_alive (ex_res (finalize req res reads opened sock)) =
     (req_keep_alive req \<and> status_code res < 400)"
  by (auto simp: finalize_def Let_def)

lemma finalize_sent:
  "ex_sent (finalize req res reads opened sock) = to_string (ex_res (finalize req res reads opened sock))"
  by (simp add: finalize_def Let_def)

lemma finalized_finalize: "finalized (finalize req res reads opened sock)"
  using finalize_sent [of req res reads opened sock]
  by (simp add: finalized_def finalize_keep_alive)

lemma form_segments_keep_alive:
  "form_segments segs info = Inr info' \<Longrightarrow> req_keep_alive info' = req_keep_alive info"
  by (induction segs arbitrary: info) (auto split: option.splits sum.splits)

lemma parse_post_body_keep_alive:
  "parse_post_body d bp req = Inr req' \<Longrightarrow> req_keep_alive req' = req_keep_alive req"
  by (auto simp: parse_post_body_def parse_form_body_def parse_json_body_def Let_def
      split: if_splits dest: form_segments_keep_alive)

lemma route_request_finalized:
  assumes "route_request rts fs d bp req reads sock = Inr ex"
  shows "finalized ex" "req_keep_alive (ex_req ex) = req_keep_alive req" "ex_body_reads ex = reads"
  using assms
  by (auto simp: route_request_def Let_def finalized_finalize
      split: sum.splits option.splits dest: parse_post_body_keep_alive)

lemma request_head_keep_alive:
  "req_keep_alive (request_head d bp) \<longleftrightarrow>
     find_str (extract_header_value d bp HDR_CONNECTION) ''close'' 0 = None
     \<and> find_str (extract_header_value d bp HDR_CONNECTION) ''Close'' 0 = None"
  by (auto simp: request_head_def parse_url_def new_RequestInfo_def Let_def split: option.splits)

lemma handle_request_finalized:
  assumes "handle_request rts fs d bp sock = Inr ex"
  shows "finalized ex" "req_keep_alive (ex_req ex) = req_keep_alive (request_head d bp)"
  using assms
  by (auto simp: handle_request_def Let_def finalized_finalize
      split: sum.splits if_splits dest: route_request_finalized)

lemma handle_client_finalized:
  "ex \<in> set (fst (handle_client rts fs sock)) \<Longrightarrow> finalized ex"
proof (induction rts fs sock rule: handle_client.induct)
  case (1 rts fs sock)
  from "1.prems" show ?case
    apply (subst (asm) handle_client.simps)
    apply (auto simp: Let_def split: if_splits option.splits sum.splits
        dest: handle_request_finalized(1) "1.IH" [OF refl refl])
    done
qed


text \<open>
  Claim C6. Every exchange that \<open>handle_client\<close> completes carries a response whose
  keep-alive flag is the flag of the request, except that it is false when the status is
  400 or more; what the handler had put there plays no part. The bytes sent are the
  serialisation of that response, so a response with status 400 or more goes out with
  \<open>Connection: close\<close>. For a single request the flag of the request is the one that
  lines 171 to 185 have computed.
\<close>

theorem keep_alive_finalized:
  assumes "ex \<in> set (fst (handle_client rts fs sock))"
  shows "keep_alive (ex_res ex) = (req_keep_alive (ex_req ex) \<and> status_code (ex_res ex) < 400)
       \<and> ex_sent ex = to_string (ex_res ex)
       \<and> (400 \<le> status_code (ex_res ex) \<longrightarrow>
            ex_sent ex =
              ''HTTP/1.1 '' @ show_int (status_code (ex_res ex)) @ '' '' @ status_text (ex_res ex) @ CRLF
              @ ''Content-Type: '' @ content_type (ex_res ex) @ CRLF
              @ ''Content-Length: '' @ show_nat (length (body (ex_res ex))) @ CRLF
              @ ''Connection: close'' @ CRLF
              @ concat (map header_line (headers (ex_res ex)))
              @ CRLF @ body (ex_res ex))
       \<and> (handle_request rts fs d bp s = Inr ex' \<longrightarrow>
            keep_alive (ex_res ex') =
              (req_keep_alive (request_head d bp) \<and> status_code (ex_res ex') < 400))"
proof -
  have fin: "finalized ex"
    using assms by (rule handle_client_finalized)
  then have ka: "keep_alive (ex_res ex) = (req_keep_alive (ex_req ex) \<and> status_code (ex_res ex) < 400)"
    and sent: "ex_sent ex = to_string (ex_res ex)"
    by (simp_all add: finalized_def)
  have closed: "400 \<le> status_code (ex_res ex) \<Longrightarrow> \<not> keep_alive (ex_res ex)"
    using ka by simp
  have "400 \<le> status_code (ex_res ex) \<longrightarrow>
      ex_sent ex =
        ''HTTP/1.1 '' @ show_int (status_code (ex_res ex)) @ '' '' @ status_text (ex_res ex) @ CRLF
        @ ''Content-Type: '' @ content_type (ex_res ex) @ CRLF
        @ ''Content-Length: '' @ show_nat (length (body (ex_res ex))) @ CRLF
        @ ''Connection: close'' @ CRLF
        @ concat (map header_line (headers (ex_res ex)))
        @ CRLF @ body (ex_res ex)"
    using closed by (simp add: sent to_string_layout [of "ex_res ex"] del: show_nat.simps)
  moreover have "handle_request rts fs d bp s = Inr ex' \<longrightarrow>
      keep_alive (ex_res ex') =
        (req_keep_alive (request_head d bp) \<and> status_code (ex_res ex') < 400)"
    using handle_request_finalized [of rts fs d bp s ex'] by (auto simp: finalized_def)
  ultimately show ?thesis
    using ka sent by blast
qed


text \<open>
  A handler answers 404 and leaves its own flag at the default \<open>true\<close>; the request
  asks for nothing, so its flag is \<open>true\<close> as well. The response is sent with
  \<open>Connection: close\<close>.
\<close>

theorem keep_alive_finalized_witness:
  "hd (fst (handle_client [''a'' \<mapsto> (\<lambda>req. new_Response\<lparr>status_code := 404\<rparr>)] Map.empty
        [''GET /a HTTP/1.1'' @ CRLF @ CRLF]))
     \<in> set (fst (handle_client [''a'' \<mapsto> (\<lambda>req. new_Response\<lparr>status_code := 404\<rparr>)] Map.empty
        [''GET /a HTTP/1.1'' @ CRLF @ CRLF]))
   \<and> keep_alive (new_Response\<lparr>status_code := 404\<rparr>)
   \<and> ex_sent (hd (fst (handle_client [''a'' \<mapsto> (\<lambda>req. new_Response\<lparr>status_code := 404\<rparr>)] Map.empty
        [''GET /a HTTP/1.1'' @ CRLF @ CRLF])))
      = ''HTTP/1.1 404 OK'' @ CRLF @ ''Content-Type: text/html'' @ CRLF @ ''Content-Length: 0'' @ CRLF
        @ ''Connection: close'' @ CRLF @ CRLF
   \<and> handle_request [''a'' \<mapsto> (\<lambda>req. new_Response\<lparr>status_code := 404\<rparr>)] Map.empty
        (''GET /a HTTP/1.1'' @ CRLF @ CRLF) 15 []
      = Inr \<lparr>ex_req = \<lparr>path = ''a'', query = [], params = Map.empty, req_method = ''GET'',
                         req_body = [], req_keep_alive = True\<rparr>,
              ex_res = \<lparr>status_code = 404, status_text = ''OK'', content_type = ''text/html'',
                         body = [], headers = [], keep_alive = False\<rparr>,
              ex_sent = ''HTTP/1.1 404 OK'' @ CRLF @ ''Content-Type: text/html'' @ CRLF
                         @ ''Content-Length: 0'' @ CRLF @ ''Connection: close'' @ CRLF @ CRLF,
              ex_body_reads = 0, ex_opened = [], ex_sock = []\<rparr>"
  using keep_alive_finalized
    [of "hd (fst (handle_client [''a'' \<mapsto> (\<lambda>req. new_Response\<lparr>status_code := 404\<rparr>)] Map.empty
        [''GET /a HTTP/1.1'' @ CRLF @ CRLF]))"
      "[''a'' \<mapsto> (\<lambda>req. new_Response\<lparr>status_code := 404\<rparr>)]" Map.empty
      "[''GET /a HTTP/1.1'' @ CRLF @ CRLF]" "''GET /a HTTP/1.1'' @ CRLF @ CRLF" 15 "[]"]
  by (simp add: server_eval response_eval decode_eval string_eval number_eval char_eval)


section \<open>The \<open>Connection\<close> header\<close>

text \<open>The first pass of the loop, when the first chunk fits the buffer and holds the delimiter.\<close>

lemma handle_client_first:
  assumes "data \<noteq> []" "length data \<le> MAX_READ_BUFFER" "find_str data HTTP_DELIM 0 = Some bp"
  shows "handle_client rts fs (data # sock) =
     (case handle_request rts fs data bp sock of
        Inl e \<Rightarrow> ([], Terminated e)
      | Inr ex \<Rightarrow>
          if \<not> keep_alive (ex_res ex) then ([ex], Closed)
          else (ex # fst (handle_client rts fs (ex_sock ex)), snd (handle_client rts fs (ex_sock ex))))"
  using assms
  by (subst handle_client.simps) (simp add: Let_def split: sum.splits)

text \<open>
  What the code does for the two spellings it tests, \<open>close\<close> and \<open>Close\<close>: when
  the value that \<open>extract_header_value\<close> returns for \<open>Connection:\<close> contains one of
  them, the flag of the request is false, so is the flag of the response whatever the
  handler returned, and the loop does not go round again: it ends with this exchange, or
  with the exception that ends the process.
\<close>

lemma connection_close_two_spellings:
  assumes "extract_header_value data bp HDR_CONNECTION = a @ ''close'' @ b
         \<or> extract_header_value data bp HDR_CONNECTION = a @ ''Close'' @ b"
    and "data \<noteq> []" "length data \<le> MAX_READ_BUFFER" "find_str data HTTP_DELIM 0 = Some bp"
  shows "\<not> req_keep_alive (request_head data bp)
       \<and> (handle_request rts fs data bp sock = Inr ex \<longrightarrow>
            \<not> req_keep_alive (ex_req ex) \<and> \<not> keep_alive (ex_res ex))
       \<and> handle_client rts fs (data # sock) =
           (case handle_request rts fs data bp sock of
              Inl e \<Rightarrow> ([], Terminated e)
            | Inr ex \<Rightarrow> ([ex], Closed))"
proof -
  have "find_str (extract_header_value data bp HDR_CONNECTION) ''close'' 0 \<noteq> None
      \<or> find_str (extract_header_value data bp HDR_CONNECTION) ''Close'' 0 \<noteq> None"
    using assms(1) find_str_0_iff by metis
  then have req: "\<not> req_keep_alive (request_head data bp)"
    by (auto simp: request_head_keep_alive)
  have one: "\<not> req_keep_alive (ex_req x) \<and> \<not> keep_alive (ex_res x)"
    if "handle_request rts fs data bp sock = Inr x" for x
    using handle_request_finalized [OF that] req by (simp add: finalized_def)
  have "handle_client rts fs (data # sock) =
      (case handle_request rts fs data bp sock of
         Inl e \<Rightarrow> ([], Terminated e)
       | Inr ex \<Rightarrow> ([ex], Closed))"
    using one by (simp add: handle_client_first [OF assms(2-4)] split: sum.splits)
  with req one show ?thesis by blast
qed

text \<open>
  The header \<open>Connection: Close\<close>, a handler that leaves its flag at the default
  \<open>true\<close>, and a second request waiting on the socket, which stays unread.
\<close>

lemma connection_close_two_spellings_example:
  "extract_header_value (''GET /a HTTP/1.1'' @ CRLF @ ''Connection: Close'' @ CRLF @ CRLF) 34 HDR_CONNECTION
     = [] @ ''Close'' @ []
   \<and> find_str (''GET /a HTTP/1.1'' @ CRLF @ ''Connection: Close'' @ CRLF @ CRLF) HTTP_DELIM 0 = Some 34
   \<and> keep_alive (new_Response\<lparr>body := ''hi''\<rparr>)
   \<and> handle_client [''a'' \<mapsto> (\<lambda>req. new_Response\<lparr>body := ''hi''\<rparr>)] Map.empty
        [''GET /a HTTP/1.1'' @ CRLF @ ''Connection: Close'' @ CRLF @ CRLF, ''GET /a HTTP/1.1'' @ CRLF @ CRLF]
      = ([\<lparr>ex_req = \<lparr>path = ''a'', query = [], params = Map.empty, req_method = ''GET'',
                        req_body = [], req_keep_alive = False\<rparr>,
             ex_res = \<lparr>status_code = 200, status_text = ''OK'', content_type = ''text/html'',
                        body = ''hi'', headers = [], keep_alive = False\<rparr>,
             ex_sent = ''HTTP/1.1 200 OK'' @ CRLF @ ''Content-Type: text/html'' @ CRLF
                        @ ''Content-Length: 2'' @ CRLF @ ''Connection: close'' @ CRLF @ CRLF @ ''hi'',
             ex_body_reads = 0, ex_opened = [],
             ex_sock = [''GET /a HTTP/1.1'' @ CRLF @ CRLF]\<rparr>], Closed)"
  using connection_close_two_spellings
    [of "''GET /a HTTP/1.1'' @ CRLF @ ''Connection: Close'' @ CRLF @ CRLF" 34 "[]" "[]"
      "[''a'' \<mapsto> (\<lambda>req. new_Response\<lparr>body := ''hi''\<rparr>)]" Map.empty
      "[''GET /a HTTP/1.1'' @ CRLF @ CRLF]"]
  by (simp add: server_eval response_eval decode_eval string_eval number_eval char_eval)

text \<open>
  Claim C4. A \<open>Connection\<close> value that contains \<open>close\<close> in any mix of cases is to
  switch keep-alive off. The code tests the two spellings above and no other: for the
  value \<open>CLOSE\<close> the flag of the request stays true, the response says
  \<open>Connection: keep-alive\<close>, and the second request on the same connection is served.
\<close>

theorem connection_close_uppercase_kept_alive:
  "extract_header_value (''GET /a HTTP/1.1'' @ CRLF @ ''Connection: CLOSE'' @ CRLF @ CRLF) 34 HDR_CONNECTION
     = ''CLOSE''
   \<and> find_str (''GET /a HTTP/1.1'' @ CRLF @ ''Connection: CLOSE'' @ CRLF @ CRLF) HTTP_DELIM 0 = Some 34
   \<and> map (\<lambda>ex. (req_keep_alive (ex_req ex), keep_alive (ex_res ex), ex_sent ex))
        (fst (handle_client Map.empty [''public/a'' \<mapsto> RegularFile ''hi'']
           [''GET /a HTTP/1.1'' @ CRLF @ ''Connection: CLOSE'' @ CRLF @ CRLF,
            ''GET /a HTTP/1.1'' @ CRLF @ ''Connection: CLOSE'' @ CRLF @ CRLF]))
      = [(True, True,
          ''HTTP/1.1 200 OK'' @ CRLF @ ''Content-Type: text/plain'' @ CRLF
            @ ''Content-Length: 2'' @ CRLF @ ''Connection: keep-alive'' @ CRLF @ CRLF @ ''hi''),
         (True, True,
          ''HTTP/1.1 200 OK'' @ CRLF @ ''Content-Type: text/plain'' @ CRLF
            @ ''Content-Length: 2'' @ CRLF @ ''Connection: keep-alive'' @ CRLF @ CRLF @ ''hi'')]"
  by (simp add: server_eval response_eval decode_eval string_eval number_eval char_eval
      get_mime_type_def mime_types_def)

section \<open>The payload ceiling\<close>

text \<open>
  When \<open>std::stoull\<close> converts the value of \<open>Content-Length\<close> to a number above
  \<open>MAX_PAYLOAD_SIZE\<close>, the answer is 413 with the connection closed, and nothing more
  is read from the socket.
\<close>

lemma payload_too_large:
  assumes "extract_header_value d bp HDR_CONTENT_LEN \<noteq> []"
    and "stoull (extract_header_value d bp HDR_CONTENT_LEN) = Inr n" "MAX_PAYLOAD_SIZE < n"
  shows "\<exists>ex. handle_request rts fs d bp sock = Inr ex
       \<and> status_code (ex_res ex) = 413 \<and> \<not> keep_alive (ex_res ex)
       \<and> ex_body_reads ex = 0 \<and> ex_opened ex = [] \<and> ex_sock ex = sock"
  using assms
  by (simp add: handle_request_def Let_def finalize_def)

text \<open>
  Claim C2. A declared length above the ceiling is to be answered with 413. A length of
  \<open>2^64\<close> is above the ceiling, but \<open>std::stoull\<close> cannot represent it and throws
  \<open>std::out_of_range\<close> before the comparison with \<open>MAX_PAYLOAD_SIZE\<close> is reached:
  no response is sent and the process ends.
\<close>

theorem content_length_overflow_terminates:
  "stoull ''18446744073709551616'' = Inl OutOfRange
   \<and> handle_client rts fs
        [''POST /x HTTP/1.1'' @ CRLF @ ''Content-Length: 18446744073709551616'' @ CRLF @ CRLF]
      = ([], Terminated OutOfRange)"
  by (simp add: server_eval decode_eval string_eval number_eval char_eval)


section \<open>Path normalisation\<close>

text \<open>
  Claim C10. The path that is looked up in the route table is \<open>index.html\<close> for the
  empty path, for \<open>/\<close>, for \<open>public\<close> and for \<open>public/\<close>; a leading \<open>public/\<close>
  is removed from any longer path. With the normalisation that \<open>parse_url\<close> has already
  done, the targets \<open>/index.html\<close> and \<open>/public/index.html\<close> both arrive at
  \<open>index.html\<close>.
\<close>

theorem routing_key_normalisation:
  "normalize_path [] = ''index.html''
   \<and> normalize_path ''/'' = ''index.html''
   \<and> normalize_path ''public'' = ''index.html''
   \<and> normalize_path ''public/'' = ''index.html''
   \<and> (p \<noteq> [] \<longrightarrow> normalize_path (''public/'' @ p) = p)
   \<and> normalize_path (path (parse_url [])) = ''index.html''
   \<and> normalize_path (path (parse_url ''/'')) = ''index.html''
   \<and> normalize_path (path (parse_url ''/public'')) = ''index.html''
   \<and> normalize_path (path (parse_url ''/public/'')) = ''index.html''
   \<and> normalize_path (path (parse_url ''/index.html'')) = ''index.html''
   \<and> normalize_path (path (parse_url ''/public/index.html'')) = ''index.html''"
proof -
  have "normalize_path (''public/'' @ p) = p" if "p \<noteq> []"
    using that by (cases p) (simp_all add: normalize_path_def PUBLIC_DIR_def DEFAULT_INDEX_def
        substr_def substr_from_def Let_def)
  then show ?thesis
    by (simp add: normalize_path_def parse_url_def new_RequestInfo_def PUBLIC_DIR_def
        DEFAULT_INDEX_def string_eval Let_def)
qed


text \<open>
  A longer path below \<open>public/\<close>, and the two targets on one connection: both requests
  are dispatched under \<open>index.html\<close> and receive the same file.
\<close>

theorem routing_key_normalisation_witness:
  "''css/site.css'' \<noteq> []
   \<and> normalize_path ''public/css/site.css'' = ''css/site.css''
   \<and> map (\<lambda>ex. (path (ex_req ex), ex_opened ex, body (ex_res ex)))
        (fst (handle_client Map.empty [''public/index.html'' \<mapsto> RegularFile ''<p>hi</p>'']
           [''GET /public/index.html HTTP/1.1'' @ CRLF @ CRLF,
            ''GET /index.html HTTP/1.1'' @ CRLF @ CRLF]))
      = [(''index.html'', [''public/index.html''], ''<p>hi</p>''),
         (''index.html'', [''public/index.html''], ''<p>hi</p>'')]"
  using routing_key_normalisation [of "''css/site.css''"]
  by (simp add: server_eval response_eval decode_eval string_eval number_eval char_eval
      get_mime_type_def mime_types_def)

section \<open>Query parameters\<close>

text \<open>
  Where the segments of a split lie in the string that was split, and what the loop over
  the segments does to a key that later segments do not mention.
\<close>

lemma getline_aux_front:
  "\<exists>front. \<forall>rest. getline_aux d seg (x @ d # rest) = front @ getline_aux d [] rest"
proof (induction x arbitrary: seg)
  case Nil
  have "\<forall>rest. getline_aux d seg ([] @ d # rest) = [seg] @ getline_aux d [] rest"
    by simp
  then show ?case by blast
next
  case (Cons c x)
  show ?case
  proof (cases "c = d")
    case True
    from Cons.IH [of "[]"] obtain front
      where "\<forall>rest. getline_aux d [] (x @ d # rest) = front @ getline_aux d [] rest"
      by blast
    with True have "\<forall>rest. getline_aux d seg ((c # x) @ d # rest) = (seg # front) @ getline_aux d [] rest"
      by simp
    then show ?thesis by blast
  next
    case False
    from Cons.IH [of "seg @ [c]"] obtain front
      where "\<forall>rest. getline_aux d (seg @ [c]) (x @ d # rest) = front @ getline_aux d [] rest"
      by blast
    with False have "\<forall>rest. getline_aux d seg ((c # x) @ d # rest) = front @ getline_aux d [] rest"
      by simp
    then show ?thesis by blast
  qed
qed

lemma getline_aux_segment_place:
  "seg \<in> set (getline_aux d acc y) \<Longrightarrow>
     (\<exists>y2. acc @ y = seg @ y2) \<or> (\<exists>y1 y2. y = y1 @ d # seg @ y2)"
proof (induction y arbitrary: acc)
  case Nil
  then show ?case by (auto split: if_splits)
next
  case (Cons c y)
  show ?case
  proof (cases "c = d")
    case True
    with Cons.prems have "seg = acc \<or> seg \<in> set (getline_aux d [] y)"
      by simp
    then show ?thesis
    proof
      assume "seg = acc"
      then show ?thesis by auto
    next
      assume "seg \<in> set (getline_aux d [] y)"
      from Cons.IH [OF this] show ?thesis
      proof
        assume "\<exists>y2. [] @ y = seg @ y2"
        then obtain y2 where "y = seg @ y2" by auto
        with True have "c # y = [] @ d # seg @ y2" by simp
        then show ?thesis by blast
      next
        assume "\<exists>y1 y2. y = y1 @ d # seg @ y2"
        then obtain y1 y2 where "y = y1 @ d # seg @ y2" by blast
        then have "c # y = (c # y1) @ d # seg @ y2" by simp
        then show ?thesis by blast
      qed
    qed
  next
    case False
    with Cons.prems have "seg \<in> set (getline_aux d (acc @ [c]) y)"
      by simp
    from Cons.IH [OF this] show ?thesis
    proof
      assume "\<exists>y2. (acc @ [c]) @ y = seg @ y2"
      then show ?thesis by auto
    next
      assume "\<exists>y1 y2. y = y1 @ d # seg @ y2"
      then obtain y1 y2 where "y = y1 @ d # seg @ y2" by blast
      then have "c # y = (c # y1) @ d # seg @ y2" by simp
      then show ?thesis by blast
    qed
  qed
qed

lemma find_aux_char_Some:
  "find_aux [c] s i = Some j \<Longrightarrow> i \<le> j \<and> j - i < length s \<and> s ! (j - i) = c"
proof (induction s arbitrary: i)
  case Nil
  then show ?case by simp
next
  case (Cons x s)
  show ?case
  proof (cases "x = c")
    case True
    with Cons.prems show ?thesis by simp
  next
    case False
    with Cons.prems have "find_aux [c] s (Suc i) = Some j" by simp
    from Cons.IH [OF this]
    have ih: "Suc i \<le> j" "j - Suc i < length s" "s ! (j - Suc i) = c"
      by simp_all
    then have "j - i = Suc (j - Suc i)" by arith
    with ih show ?thesis by simp
  qed
qed

lemma find_char_Some:
  assumes "find_char s c 0 = Some j"
  shows "s = take j s @ c # drop (Suc j) s"
proof -
  have "j < length s \<and> s ! j = c"
    using assms find_aux_char_Some [of c s 0 j] by (simp add: find_char_def find_str_def)
  then show ?thesis
    by (metis id_take_nth_drop)
qed

lemma query_segments_append:
  "query_segments (xs @ ys) ps = query_segments ys (query_segments xs ps)"
  by (induction xs arbitrary: ps) (auto simp: Let_def split: option.splits)

lemma query_segments_other:
  assumes "\<forall>seg\<in>set segs. \<forall>r. seg \<noteq> k @ CHR ''='' # r"
  shows "query_segments segs ps k = ps k"
  using assms
proof (induction segs arbitrary: ps)
  case Nil
  then show ?case by simp
next
  case (Cons seg segs)
  have rest: "query_segments segs ps' k = ps' k" for ps'
    using Cons by simp
  show ?case
  proof (cases "find_char seg (CHR ''='') 0")
    case None
    then show ?thesis by (simp add: rest)
  next
    case (Some j)
    from find_char_Some [OF Some] have "seg = take j seg @ CHR ''='' # drop (Suc j) seg" .
    moreover have "seg \<noteq> k @ CHR ''='' # drop (Suc j) seg"
      using Cons.prems by simp
    ultimately have "take j seg \<noteq> k" by metis
    with Some show ?thesis
      by (simp add: rest Let_def substr_def)
  qed
qed


lemma parse_url_query:
  assumes "CHR ''?'' \<notin> set p"
  shows "query (parse_url (p @ CHR ''?'' # q)) = q"
    and "params (parse_url (p @ CHR ''?'' # q)) = query_segments (getline_split (CHR ''&'') q) Map.empty"
  using find_char_first [OF assms, of q]
  by (simp_all add: parse_url_def new_RequestInfo_def Let_def substr_from_def)

lemma query_segments_pair:
  assumes "CHR ''='' \<notin> set k"
  shows "query_segments ((k @ CHR ''='' # v) # later) ps = query_segments later (ps(k \<mapsto> v))"
  using find_char_first [OF assms, of v]
  by (simp add: Let_def substr_def substr_from_def)

lemma later_segments_other:
  assumes "find_str (CHR ''&'' # y) (''&'' @ k @ ''='') 0 = None"
    and "seg \<in> set (getline_aux (CHR ''&'') [] y)"
  shows "seg \<noteq> k @ CHR ''='' # r"
proof
  assume seg: "seg = k @ CHR ''='' # r"
  from getline_aux_segment_place [OF assms(2)]
  have "\<exists>y1 y2. CHR ''&'' # y = y1 @ CHR ''&'' # seg @ y2"
  proof
    assume "\<exists>y2. [] @ y = seg @ y2"
    then obtain y2 where "y = seg @ y2" by auto
    then have "CHR ''&'' # y = [] @ CHR ''&'' # seg @ y2" by simp
    then show ?thesis by blast
  next
    assume "\<exists>y1 y2. y = y1 @ CHR ''&'' # seg @ y2"
    then obtain y1 y2 where "y = y1 @ CHR ''&'' # seg @ y2" by blast
    then have "CHR ''&'' # y = (CHR ''&'' # y1) @ CHR ''&'' # seg @ y2" by simp
    then show ?thesis by blast
  qed
  then obtain y1 y2 where "CHR ''&'' # y = y1 @ CHR ''&'' # seg @ y2" by blast
  with seg have "CHR ''&'' # y = y1 @ (''&'' @ k @ ''='') @ (r @ y2)" by simp
  then have "find_str (CHR ''&'' # y) (''&'' @ k @ ''='') 0 \<noteq> None"
    using find_str_0_iff by blast
  with assms(1) show False by simp
qed

text \<open>
  Claim C8. Let the query string hold the segment \<open>k=v\<close>, delimited by \<open>&\<close> or by the
  ends of the query, and let no later segment begin with \<open>k=\<close>, that is, let \<open>&k=\<close>
  not occur behind it. Then the parameter map of \<open>parse_url\<close> has \<open>v\<close> at \<open>k\<close>,
  whatever earlier segments say about \<open>k\<close>: the last occurrence wins. The value is the
  segment's text behind its first \<open>=\<close>, character for character: \<open>+\<close> and \<open>%\<close>
  in it stay as they are.
\<close>

theorem query_last_wins:
  assumes "CHR ''?'' \<notin> set p"
    and "CHR ''&'' \<notin> set k" "CHR ''='' \<notin> set k" "CHR ''&'' \<notin> set v"
    and "pre = [] \<or> last pre = CHR ''&''"
    and "post = [] \<or> hd post = CHR ''&''"
    and "find_str post (''&'' @ k @ ''='') 0 = None"
  shows "query (parse_url (p @ ''?'' @ pre @ k @ ''='' @ v @ post)) = pre @ k @ ''='' @ v @ post
       \<and> params (parse_url (p @ ''?'' @ pre @ k @ ''='' @ v @ post)) k = Some v"
proof -
  define kv where "kv = k @ CHR ''='' # v"
  have kv_amp: "CHR ''&'' \<notin> set kv"
    using assms(2,4) by (simp add: kv_def)
  have kv_ne: "kv \<noteq> []"
    by (simp add: kv_def)
  have tail: "\<exists>later. getline_aux (CHR ''&'') [] (kv @ post) = kv # later
      \<and> (\<forall>seg\<in>set later. \<forall>r. seg \<noteq> k @ CHR ''='' # r)"
  proof (cases post)
    case Nil
    then have "getline_aux (CHR ''&'') [] (kv @ post) = [kv]"
      using kv_amp kv_ne by (simp add: getline_aux_no_delim)
    then show ?thesis by simp
  next
    case (Cons c y)
    with assms(6) have post: "post = CHR ''&'' # y" by simp
    have "getline_aux (CHR ''&'') [] (kv @ post) = kv # getline_aux (CHR ''&'') [] y"
      using getline_aux_delim [OF kv_amp, of "[]" y] by (simp add: post)
    moreover have "\<forall>seg\<in>set (getline_aux (CHR ''&'') [] y). \<forall>r. seg \<noteq> k @ CHR ''='' # r"
      using later_segments_other [of y k] assms(7) by (auto simp: post)
    ultimately show ?thesis by blast
  qed
  then obtain later where later: "getline_aux (CHR ''&'') [] (kv @ post) = kv # later"
    and other: "\<forall>seg\<in>set later. \<forall>r. seg \<noteq> k @ CHR ''='' # r"
    by blast
  have "\<exists>front. getline_split (CHR ''&'') (pre @ kv @ post) = front @ kv # later"
  proof (cases "pre = []")
    case True
    then have "getline_split (CHR ''&'') (pre @ kv @ post) = [] @ kv # later"
      by (simp add: getline_split_def later)
    then show ?thesis by blast
  next
    case False
    with assms(5) obtain x where pre: "pre = x @ [CHR ''&'']"
      by (metis append_butlast_last_id)
    from getline_aux_front [of "CHR ''&''" "[]" x] obtain front
      where "\<forall>rest. getline_aux (CHR ''&'') [] (x @ CHR ''&'' # rest) = front @ getline_aux (CHR ''&'') [] rest"
      by blast
    then have "getline_aux (CHR ''&'') [] (x @ CHR ''&'' # kv @ post) = front @ kv # later"
      by (simp add: later)
    then have "getline_split (CHR ''&'') (pre @ kv @ post) = front @ kv # later"
      by (simp add: getline_split_def pre)
    then show ?thesis by blast
  qed
  then obtain front where split: "getline_split (CHR ''&'') (pre @ kv @ post) = front @ kv # later"
    by blast
  have url: "p @ ''?'' @ pre @ k @ ''='' @ v @ post = p @ CHR ''?'' # (pre @ kv @ post)"
    by (simp add: kv_def)
  have pair: "query_segments (kv # later) ps = query_segments later (ps(k \<mapsto> v))" for ps
    unfolding kv_def by (rule query_segments_pair [OF assms(3)])
  have "params (parse_url (p @ CHR ''?'' # (pre @ kv @ post))) k =
      query_segments later ((query_segments front Map.empty)(k \<mapsto> v)) k"
    by (simp only: parse_url_query(2) [OF assms(1)] split query_segments_append pair)
  also have "\<dots> = Some v"
    using query_segments_other [OF other] by simp
  finally have "params (parse_url (p @ CHR ''?'' # (pre @ kv @ post))) k = Some v" .
  moreover have "query (parse_url (p @ CHR ''?'' # (pre @ kv @ post))) = pre @ kv @ post"
    by (rule parse_url_query(1) [OF assms(1)])
  ultimately show ?thesis
    unfolding url by (simp add: kv_def)
qed

text \<open>
  Two segments for \<open>a\<close>; the later one has a value with \<open>+\<close>, \<open>%41\<close> and a second
  \<open>=\<close> in it, which arrives unchanged.
\<close>

theorem query_last_wins_witness:
  "CHR ''?'' \<notin> set ''/search'' \<and> CHR ''&'' \<notin> set ''a'' \<and> CHR ''='' \<notin> set ''a''
   \<and> CHR ''&'' \<notin> set ''x+%41=y''
   \<and> last ''a=1&c=3&'' = CHR ''&'' \<and> hd ''&b=2'' = CHR ''&''
   \<and> find_str ''&b=2'' ''&a='' 0 = None
   \<and> params (parse_url ''/search?a=1&c=3&a=x+%41=y&b=2'') ''a'' = Some ''x+%41=y''"
  using query_last_wins [of "''/search''" "''a''" "''x+%41=y''" "''a=1&c=3&''" "''&b=2''"]
  by (simp add: string_eval)

section \<open>Header extraction\<close>






end
